theory Spec2Isabelle
  imports Complex_Main "HOL-Library.Sublist"
begin

section \<open>Python strings\<close>

text \<open>
  A Python \<open>str\<close> is a sequence of Unicode code points. A code point is modelled as a
  natural number and a string as the list of its code points, so that \<open>length\<close> counts
  what Python's \<open>len\<close> counts. ASCII literals are written through \<open>py\<close>.
\<close>

type_synonym pystr = "nat list"

definition py :: "string \<Rightarrow> pystr" where
  "py s = map of_char s"

definition LF :: nat where "LF = 10"
definition CR :: nat where "CR = 13"
definition SPACE :: nat where "SPACE = 32"
definition PERCENT :: nat where "PERCENT = 37"
definition STAR :: nat where "STAR = 42"
definition PLUS :: nat where "PLUS = 43"
definition MINUS :: nat where "MINUS = 45"
definition DEGREE :: nat where "DEGREE = 176"

text \<open>
  \<open>str.splitlines()\<close>: the line boundaries of Python are LF, VT, FF, CR, FS, GS, RS, NEL,
  LS and PS, and CR LF counts as one boundary. The breaks are not kept, the empty string
  has no line, and a final break opens no further line.
\<close>

definition is_linebreak :: "nat \<Rightarrow> bool" where
  "is_linebreak c \<longleftrightarrow> c \<in> {10, 11, 12, 13, 28, 29, 30, 133, 8232, 8233}"

fun splitlines_from :: "pystr \<Rightarrow> pystr \<Rightarrow> pystr list" where
  "splitlines_from cur [] = (if cur = [] then [] else [rev cur])"
| "splitlines_from cur (c # cs) =
     (if c = CR then
        (case cs of
           [] \<Rightarrow> [rev cur]
         | d # ds \<Rightarrow> if d = LF then rev cur # splitlines_from [] ds
                     else rev cur # splitlines_from [] (d # ds))
      else if is_linebreak c then rev cur # splitlines_from [] cs
      else splitlines_from (c # cur) cs)"

definition splitlines :: "pystr \<Rightarrow> pystr list" where
  "splitlines s = splitlines_from [] s"

text \<open>\<open>sep.join(xs)\<close>.\<close>

fun join :: "pystr \<Rightarrow> pystr list \<Rightarrow> pystr" where
  "join sep [] = []"
| "join sep [x] = x"
| "join sep (x # y # ys) = x @ sep @ join sep (y # ys)"

text \<open>
  \<open>s.replace(old, new)\<close> replaces the non-overlapping occurrences of \<open>old\<close> from left to
  right; with an empty \<open>old\<close> Python inserts \<open>new\<close> before every character and at the end.
  \<open>s.replace(old, new, 1)\<close> replaces the first occurrence only.
\<close>

function str_replace :: "pystr \<Rightarrow> pystr \<Rightarrow> pystr \<Rightarrow> pystr" where
  "str_replace old new s =
     (if old = [] then new @ concat (map (\<lambda>c. c # new) s)
      else if prefix old s then new @ str_replace old new (drop (length old) s)
      else (case s of [] \<Rightarrow> [] | c # cs \<Rightarrow> c # str_replace old new cs))"
  by pat_completeness auto
termination
  by (relation "measure (\<lambda>(old, new, s). length s)") (auto simp: prefix_def)

fun replace_first :: "pystr \<Rightarrow> pystr \<Rightarrow> pystr \<Rightarrow> pystr" where
  "replace_first old new [] = (if old = [] then new else [])"
| "replace_first old new (c # cs) =
     (if prefix old (c # cs) then new @ drop (length old) (c # cs)
      else c # replace_first old new cs)"

text \<open>
  \<open>g[a:-b]\<close> for \<open>a \<ge> 0\<close>: from index \<open>a\<close> (clipped to the length) up to \<open>b\<close> characters
  before the end; \<open>-0\<close> is index 0, so the slice is then empty.
\<close>

definition slice_inner :: "pystr \<Rightarrow> nat \<Rightarrow> nat \<Rightarrow> pystr" where
  "slice_inner g a b = (if b = 0 then [] else drop a (take (length g - b) g))"

text \<open>
  \<open>str.strip()\<close> without argument removes leading and trailing characters for which
  \<open>str.isspace\<close> holds.
\<close>

definition is_space :: "nat \<Rightarrow> bool" where
  "is_space c \<longleftrightarrow>
     (9 \<le> c \<and> c \<le> 13) \<or> (28 \<le> c \<and> c \<le> 32) \<or> c = 133 \<or> c = 160 \<or> c = 5760 \<or>
     (8192 \<le> c \<and> c \<le> 8202) \<or> c = 8232 \<or> c = 8233 \<or> c = 8239 \<or> c = 8287 \<or> c = 12288"

definition strip :: "pystr \<Rightarrow> pystr" where
  "strip s = rev (dropWhile is_space (rev (dropWhile is_space s)))"

section \<open>The two regular expressions of the program\<close>

text \<open>
  Both patterns of \<open>STYLES\<close> have the shape \<open>D(.*?)D\<close> for a literal delimiter \<open>D\<close>
  (\<open>**\<close> for bold, \<open>*\<close> for italic). A pattern is represented by its delimiter.
  Python's backtracking matcher, started at a position, needs \<open>D\<close> there; the lazy
  \<open>.*?\<close> then takes no character and tries the closing \<open>D\<close>, and on failure takes one
  more character, which must not be a line feed (\<open>.\<close> without DOTALL), and tries again.
  \<open>lazy_close\<close> is the number of characters the group takes.
\<close>

fun lazy_close :: "pystr \<Rightarrow> pystr \<Rightarrow> nat option" where
  "lazy_close d [] = (if d = [] then Some 0 else None)"
| "lazy_close d (c # cs) =
     (if prefix d (c # cs) then Some 0
      else if c = LF then None
      else map_option Suc (lazy_close d cs))"

definition match_at :: "pystr \<Rightarrow> pystr \<Rightarrow> nat option" where
  "match_at d s =
     (if prefix d s
      then map_option (\<lambda>k. length d + k + length d) (lazy_close d (drop (length d) s))
      else None)"

text \<open>
  \<open>re.search\<close> tries the start positions from left to right and returns the first match;
  the result is the span (start, end) of the match.
\<close>

fun re_search :: "pystr \<Rightarrow> pystr \<Rightarrow> (nat \<times> nat) option" where
  "re_search d [] = map_option (\<lambda>n. (0, n)) (match_at d [])"
| "re_search d (c # cs) =
     (case match_at d (c # cs) of
        Some n \<Rightarrow> Some (0, n)
      | None \<Rightarrow> map_option (\<lambda>(i, j). (Suc i, Suc j)) (re_search d cs))"

text \<open>\<open>match.group()\<close>: the matched text.\<close>

definition group :: "pystr \<Rightarrow> nat \<times> nat \<Rightarrow> pystr" where
  "group s m = take (snd m - fst m) (drop (fst m) s)"

text \<open>
  \<open>re.sub(" +", " ", s)\<close>: every maximal run of spaces becomes one space.
\<close>

function sub_spaces :: "pystr \<Rightarrow> pystr" where
  "sub_spaces [] = []"
| "sub_spaces (c # cs) =
     (if c = SPACE then SPACE # sub_spaces (dropWhile (\<lambda>x. x = SPACE) cs)
      else c # sub_spaces cs)"
  by pat_completeness auto
termination
  by (relation "measure length") (auto simp: le_imp_less_Suc length_dropWhile_le)

section \<open>The text normaliser\<close>

record style =
  style_name :: string
  regex :: pystr
  offset :: nat

definition STYLES :: "style list" where
  "STYLES =
     [\<lparr>style_name = ''BOLD'', regex = [STAR, STAR], offset = 2\<rparr>,
      \<lparr>style_name = ''ITALIC'', regex = [STAR], offset = 1\<rparr>]"

text \<open>
  The inner \<open>while match:\<close> loop of \<open>remove_markdown_styles\<close>. The source gives it no
  bound, so it is a partial function: \<open>None\<close> is a loop that does not return.
\<close>

partial_function (option) strip_style :: "pystr \<Rightarrow> nat \<Rightarrow> pystr \<Rightarrow> pystr option" where
  "strip_style rx off message =
     (case re_search rx message of
        None \<Rightarrow> Some message
      | Some m \<Rightarrow>
          strip_style rx off
            (replace_first (group message m) (slice_inner (group message m) off off) message))"

fun for_styles :: "style list \<Rightarrow> pystr \<Rightarrow> pystr option" where
  "for_styles [] message = Some message"
| "for_styles (st # sts) message =
     (case strip_style (regex st) (offset st) message of
        None \<Rightarrow> None
      | Some message' \<Rightarrow> for_styles sts message')"

definition remove_markdown_styles :: "pystr \<Rightarrow> pystr option" where
  "remove_markdown_styles text = for_styles STYLES text"

text \<open>
  \<open>clean_text_for_tts\<close>. Two things it uses are not the repository's: \<open>demoji.replace\<close>
  (the emoji table of the demoji package) and \<open>os.linesep\<close> (the platform's line
  separator); both are parameters.
\<close>

definition literal_substitutions :: "pystr \<Rightarrow> pystr" where
  "literal_substitutions t =
     str_replace (py ''  +'') (py ''  -'')
       (str_replace [STAR] (py ''-'')
         (str_replace [PERCENT] (py '' percent'') t))"

definition expand_degrees :: "pystr \<Rightarrow> pystr" where
  "expand_degrees t =
     str_replace (DEGREE # py ''K'') (DEGREE # py '' Kelvin'')
       (str_replace (DEGREE # py ''C'') (DEGREE # py '' Celsius'')
         (str_replace (DEGREE # py ''F'') (DEGREE # py '' Fahrenheit'') t))"

text \<open>The steps of \<open>clean_text_for_tts\<close> that follow the markdown pass.\<close>

definition finish_text :: "pystr \<Rightarrow> pystr" where
  "finish_text t =
     expand_degrees (sub_spaces (strip (str_replace [CR] [] (literal_substitutions t))))"

text \<open>The first step: \<open>os.linesep.join([s for s in text.splitlines() if s])\<close>.\<close>

definition drop_blank_lines :: "pystr \<Rightarrow> pystr \<Rightarrow> pystr" where
  "drop_blank_lines linesep t = join linesep (filter (\<lambda>s. s \<noteq> []) (splitlines t))"

definition clean_text_for_tts :: "(pystr \<Rightarrow> pystr) \<Rightarrow> pystr \<Rightarrow> pystr \<Rightarrow> pystr option" where
  "clean_text_for_tts demoji linesep text =
     map_option finish_text
       (remove_markdown_styles (demoji (drop_blank_lines linesep text)))"

declare strip_style.simps [code]

declare str_replace.simps [simp del]

text \<open>
  A stand-in for \<open>demoji.replace(text, "")\<close> in the examples: it deletes the code points
  of the emoji blocks U+1F300 to U+1FAFF and leaves every other character alone.
\<close>

definition demoji_sample :: "pystr \<Rightarrow> pystr" where
  "demoji_sample s = filter (\<lambda>c. \<not> (127744 \<le> c \<and> c \<le> 129791)) s"

section \<open>The request handler\<close>

text \<open>\<open>str(n)\<close> for an integer, as the f-string \<open>f"p{speaker_id}"\<close> formats it.\<close>

function str_nat :: "nat \<Rightarrow> pystr" where
  "str_nat n = (if n < 10 then [48 + n] else str_nat (n div 10) @ [48 + n mod 10])"
  by pat_completeness auto
termination
  by (relation "measure (\<lambda>n. n)") auto

definition str_int :: "int \<Rightarrow> pystr" where
  "str_int n = (if n < 0 then MINUS # str_nat (nat (- n)) else str_nat (nat n))"

text \<open>
  The form fields as the handler receives them (\<open>text_field\<close> is the field \<open>text\<close>):
  \<open>text\<close> and \<open>speaker_id\<close> default to \<open>None\<close>; \<open>speed\<close> is handed on unread, so its type is left open.
\<close>

record 'sp request =
  text_field :: "pystr option"
  speaker_id :: "int option"
  speed :: 'sp
  compress :: "bool option"

type_synonym path = "nat \<times> string"
type_synonym bytes = string

datatype 'e exn = HTTPException nat string | CapabilityError 'e | FileNotFoundError path

datatype response = Response bytes string

text \<open>
  The world the handler acts on: the files that exist, with their contents, the counter
  that names the next temporary file, and the log of the calls made to the two
  capabilities.
\<close>

datatype 'sp call = Synthesize pystr pystr 'sp path | Encode path path

record 'sp world =
  files :: "path \<rightharpoonup> bytes"
  next_tmp :: nat
  calls :: "'sp call list"

text \<open>
  The capabilities are not the repository's: the speech model behind
  \<open>tts_client.tts_to_file\<close> and the FLAC encoder of pyflac return their bytes or raise.
\<close>

record ('sp, 'e) env =
  demoji_replace :: "pystr \<Rightarrow> pystr"
  os_linesep :: pystr
  synthesize :: "pystr \<Rightarrow> pystr \<Rightarrow> 'sp \<Rightarrow> 'e + bytes"
  flac_encode :: "bytes \<Rightarrow> 'e + bytes"

text \<open>\<open>tempfile.NamedTemporaryFile(suffix=..., delete=False)\<close>: a new, empty file that stays.\<close>

definition named_temporary_file :: "string \<Rightarrow> 'sp world \<Rightarrow> path \<times> 'sp world" where
  "named_temporary_file sfx w =
     ((next_tmp w, sfx),
      w\<lparr>files := (files w)((next_tmp w, sfx) \<mapsto> []), next_tmp := Suc (next_tmp w)\<rparr>)"

definition read_file :: "path \<Rightarrow> 'sp world \<Rightarrow> 'e exn + bytes" where
  "read_file p w = (case files w p of None \<Rightarrow> Inl (FileNotFoundError p) | Some b \<Rightarrow> Inr b)"

definition os_remove :: "path \<Rightarrow> 'sp world \<Rightarrow> 'e exn + 'sp world" where
  "os_remove p w =
     (case files w p of
        None \<Rightarrow> Inl (FileNotFoundError p)
      | Some b \<Rightarrow> Inr (w\<lparr>files := (files w)(p := None)\<rparr>))"

text \<open>\<open>tts_client.tts_to_file(text=, speaker=, speed=, file_path=)\<close>.\<close>

definition tts_to_file ::
  "('sp, 'e) env \<Rightarrow> pystr \<Rightarrow> pystr \<Rightarrow> 'sp \<Rightarrow> path \<Rightarrow> 'sp world \<Rightarrow> ('e exn + unit) \<times> 'sp world" where
  "tts_to_file env txt speaker spd file_path w =
     (let w' = w\<lparr>calls := calls w @ [Synthesize txt speaker spd file_path]\<rparr> in
      case synthesize env txt speaker spd of
        Inl e \<Rightarrow> (Inl (CapabilityError e), w')
      | Inr audio \<Rightarrow> (Inr (), w'\<lparr>files := (files w')(file_path \<mapsto> audio)\<rparr>))"

text \<open>\<open>pyflac.FileEncoder(input_file=, output_file=)\<close> with \<open>process()\<close> and \<open>finish()\<close>.\<close>

definition file_encoder ::
  "('sp, 'e) env \<Rightarrow> path \<Rightarrow> path \<Rightarrow> 'sp world \<Rightarrow> ('e exn + unit) \<times> 'sp world" where
  "file_encoder env input_file output_file w =
     (let w' = w\<lparr>calls := calls w @ [Encode input_file output_file]\<rparr> in
      case files w' input_file of
        None \<Rightarrow> (Inl (FileNotFoundError input_file), w')
      | Some wav \<Rightarrow>
          (case flac_encode env wav of
             Inl e \<Rightarrow> (Inl (CapabilityError e), w')
           | Inr flac \<Rightarrow> (Inr (), w'\<lparr>files := (files w')(output_file \<mapsto> flac)\<rparr>)))"

text \<open>
  The handler of \<open>POST /tts\<close>. Its result is the exception it raises or the response it
  returns, with the world it leaves; \<open>None\<close> is a handler that does not return.
\<close>

definition respond_flac ::
  "('sp, 'e) env \<Rightarrow> path \<Rightarrow> 'sp world \<Rightarrow> ('e exn + response) \<times> 'sp world" where
  "respond_flac env wav_path w2 =
     (let (flac_path, w3) = named_temporary_file ''.flac'' w2 in
      case file_encoder env wav_path flac_path w3 of
        (Inl e, w4) \<Rightarrow> (Inl e, w4)
      | (Inr u, w4) \<Rightarrow>
          (case read_file flac_path w4 of
             Inl e \<Rightarrow> (Inl e, w4)
           | Inr content \<Rightarrow>
               (case os_remove wav_path w4 of
                  Inl e \<Rightarrow> (Inl e, w4)
                | Inr w5 \<Rightarrow>
                    (case os_remove flac_path w5 of
                       Inl e \<Rightarrow> (Inl e, w5)
                     | Inr w6 \<Rightarrow> (Inr (Response content ''audio/flac''), w6)))))"

definition respond_wav :: "path \<Rightarrow> 'sp world \<Rightarrow> ('e exn + response) \<times> 'sp world" where
  "respond_wav wav_path w2 =
     (case read_file wav_path w2 of
        Inl e \<Rightarrow> (Inl e, w2)
      | Inr content \<Rightarrow>
          (case os_remove wav_path w2 of
             Inl e \<Rightarrow> (Inl e, w2)
           | Inr w3 \<Rightarrow> (Inr (Response content ''audio/wav''), w3)))"

definition text_required :: "'e exn" where
  "text_required = HTTPException 400 ''Text to convert into speech must be provided.''"

definition speaker_required :: "'e exn" where
  "speaker_required = HTTPException 400 ''Speaker ID must be provided.''"

definition tts ::
  "('sp, 'e) env \<Rightarrow> 'sp request \<Rightarrow> 'sp world \<Rightarrow> (('e exn + response) \<times> 'sp world) option" where
  "tts env req w =
     (case text_field req of
        None \<Rightarrow> Some (Inl text_required, w)
      | Some t \<Rightarrow>
          if t = [] then Some (Inl text_required, w)
          else
            (case speaker_id req of
               None \<Rightarrow> Some (Inl speaker_required, w)
             | Some n \<Rightarrow>
                 if n = 0 then Some (Inl speaker_required, w)
                 else
                   (let (wav_path, w1) = named_temporary_file ''.wav'' w in
                    case clean_text_for_tts (demoji_replace env) (os_linesep env) t of
                      None \<Rightarrow> None
                    | Some cleaned \<Rightarrow>
                        (case tts_to_file env cleaned (py ''p'' @ str_int n) (speed req)
                                wav_path w1 of
                           (Inl e, w2) \<Rightarrow> Some (Inl e, w2)
                         | (Inr u, w2) \<Rightarrow>
                             if compress req = Some True
                             then Some (respond_flac env wav_path w2)
                             else Some (respond_wav wav_path w2)))))"

text \<open>
  An environment and a world for the examples: the emoji stand-in, LF as line separator, a
  speech model that knows the speakers \<open>p1\<close> (some audio) and \<open>p2\<close> (no audio at all) and
  raises for any other, an encoder that raises on empty input, and a world without files.
\<close>

definition sample_env :: "(real, string) env" where
  "sample_env =
     \<lparr>demoji_replace = demoji_sample, os_linesep = [LF],
      synthesize = (\<lambda>txt speaker spd.
         if speaker = py ''p1'' then Inr ''RIFFdata''
         else if speaker = py ''p2'' then Inr []
         else Inl ''unknown speaker''),
      flac_encode = (\<lambda>wav. if wav = [] then Inl ''empty input'' else Inr (''fLaC'' @ drop 4 wav))\<rparr>"

definition empty_world :: "real world" where
  "empty_world = \<lparr>files = Map.empty, next_tmp = 0, calls = []\<rparr>"

section \<open>The specification's reading of the markdown pass\<close>

text \<open>
  The specification describes the pass by positions: the span of the first match is
  replaced by its inner content, the delimiters on both sides dropped, until the pattern
  matches nowhere; bold first, then italic. \<open>rewrite_span\<close> is one such replacement and
  \<open>rewrite_until_none\<close> the repetition.
\<close>

definition rewrite_span :: "pystr \<Rightarrow> pystr \<Rightarrow> nat \<times> nat \<Rightarrow> pystr" where
  "rewrite_span d s m =
     take (fst m) s @
     take (snd m - fst m - 2 * length d) (drop (fst m + length d) s) @
     drop (snd m) s"

partial_function (option) rewrite_until_none :: "pystr \<Rightarrow> pystr \<Rightarrow> pystr option" where
  "rewrite_until_none d s =
     (case re_search d s of
        None \<Rightarrow> Some s
      | Some m \<Rightarrow> rewrite_until_none d (rewrite_span d s m))"

definition strip_emphasis :: "pystr \<Rightarrow> pystr option" where
  "strip_emphasis s =
     (case rewrite_until_none [STAR, STAR] s of
        None \<Rightarrow> None
      | Some b \<Rightarrow> rewrite_until_none [STAR] b)"

text \<open>
  What the pass is said not to be: one global substitution, a single scan from left to
  right in which each match of a style (the styles tried in their order at every position)
  is replaced by its inner content and the scan goes on behind the match, as
  \<open>re.sub\<close> does with the alternation of the two patterns.
\<close>

fun first_style_match :: "style list \<Rightarrow> pystr \<Rightarrow> (nat \<times> nat) option" where
  "first_style_match [] s = None"
| "first_style_match (st # sts) s =
     (case match_at (regex st) s of
        Some n \<Rightarrow> Some (n, offset st)
      | None \<Rightarrow> first_style_match sts s)"

function sub_single_pass :: "style list \<Rightarrow> pystr \<Rightarrow> pystr" where
  "sub_single_pass sts s =
     (case first_style_match sts s of
        Some (n, off) \<Rightarrow>
          if 0 < n \<and> n \<le> length s
          then slice_inner (take n s) off off @ sub_single_pass sts (drop n s)
          else (case s of [] \<Rightarrow> [] | c # cs \<Rightarrow> c # sub_single_pass sts cs)
      | None \<Rightarrow> (case s of [] \<Rightarrow> [] | c # cs \<Rightarrow> c # sub_single_pass sts cs))"
  by pat_completeness auto
termination
  by (relation "measure (\<lambda>(sts, s). length s)") auto

declare sub_single_pass.simps [simp del]

section \<open>Predicates on strings used in the statements\<close>

text \<open>\<open>no_pair a b s\<close>: nowhere in \<open>s\<close> is \<open>a\<close> directly followed by \<open>b\<close>.\<close>

fun no_pair :: "nat \<Rightarrow> nat \<Rightarrow> pystr \<Rightarrow> bool" where
  "no_pair a b (x # y # zs) = (\<not> (x = a \<and> y = b) \<and> no_pair a b (y # zs))"
| "no_pair a b [x] = True"
| "no_pair a b [] = True"

text \<open>\<open>trimmed s\<close>: \<open>s\<close> neither starts nor ends with a whitespace character.\<close>

definition trimmed :: "pystr \<Rightarrow> bool" where
  "trimmed s \<longleftrightarrow> s = [] \<or> (\<not> is_space (hd s) \<and> \<not> is_space (last s))"


section \<open>Matching and replacing\<close>


lemma prefix_takeD: "prefix d s \<Longrightarrow> take (length d) s = d"
  by (auto simp: prefix_def)

lemma prefix_append_short: "prefix d (s @ t) \<Longrightarrow> length d \<le> length s \<Longrightarrow> prefix d s"
  by (auto simp: prefix_append)

lemma prefix_take_ge: "prefix d s \<Longrightarrow> length d \<le> n \<Longrightarrow> prefix d (take n s)"
  by (auto simp: prefix_def)

lemma lazy_close_SomeD:
  "lazy_close d s = Some k \<Longrightarrow> k + length d \<le> length s \<and> prefix d (drop k s)"
proof (induction s arbitrary: k)
  case Nil
  then show ?case by (auto split: if_splits)
next
  case (Cons c cs)
  show ?case
  proof (cases "prefix d (c # cs)")
    case True
    with Cons.prems show ?thesis by (auto dest: prefix_length_le)
  next
    case False
    with Cons.prems obtain k' where k': "c \<noteq> LF" "lazy_close d cs = Some k'" "k = Suc k'"
      by (auto split: if_splits)
    from Cons.IH[OF k'(2)] k'(3) show ?thesis by simp
  qed
qed

lemma lazy_close_append:
  "lazy_close d s = Some k \<Longrightarrow> lazy_close d (s @ t) = Some k"
proof (induction s arbitrary: k)
  case Nil
  then show ?case by (cases t) (auto split: if_splits)
next
  case (Cons c cs)
  show ?case
  proof (cases "prefix d (c # cs)")
    case True
    then have "prefix d ((c # cs) @ t)" by (rule prefix_prefix)
    with True Cons.prems show ?thesis by simp
  next
    case False
    with Cons.prems obtain k' where k': "c \<noteq> LF" "lazy_close d cs = Some k'" "k = Suc k'"
      by (auto split: if_splits)
    from lazy_close_SomeD[OF Cons.prems] have len: "length d \<le> length (c # cs)" by simp
    have "\<not> prefix d ((c # cs) @ t)"
      using False len prefix_append_short by blast
    then have "\<not> prefix d (c # cs @ t)" by simp
    with k' Cons.IH[OF k'(2)] show ?thesis by simp
  qed
qed

lemma lazy_close_take:
  "lazy_close d s = Some k \<Longrightarrow> lazy_close d (take (k + length d) s) = Some k"
proof (induction s arbitrary: k)
  case Nil
  then show ?case by (auto split: if_splits)
next
  case (Cons c cs)
  show ?case
  proof (cases "prefix d (c # cs)")
    case True
    with Cons.prems have k0: "k = 0" by simp
    from True have "prefix d (take (length d) (c # cs))" by (rule prefix_take_ge) simp
    then show ?thesis using k0 by (cases d) (auto split: if_splits)
  next
    case False
    with Cons.prems obtain k' where k': "c \<noteq> LF" "lazy_close d cs = Some k'" "k = Suc k'"
      by (auto split: if_splits)
    have "prefix (c # take (k' + length d) cs) (c # cs)" by (simp add: take_is_prefix)
    then have "\<not> prefix d (c # take (k' + length d) cs)"
      using False prefix_order.trans by blast
    with k' Cons.IH[OF k'(2)] show ?thesis by simp
  qed
qed

lemma match_at_SomeD:
  "match_at d s = Some n \<Longrightarrow> 2 * length d \<le> n \<and> n \<le> length s \<and> prefix d s"
  by (auto simp: match_at_def split: if_splits dest!: lazy_close_SomeD)

lemma match_at_append:
  assumes a: "match_at d s = Some n"
  shows "match_at d (s @ t) = Some n"
proof -
  from a obtain k where k: "prefix d s" "lazy_close d (drop (length d) s) = Some k"
      "n = length d + k + length d"
    by (auto simp: match_at_def split: if_splits)
  from k(1) have p: "prefix d (s @ t)" by (rule prefix_prefix)
  from k(1) have "length d \<le> length s" by (rule prefix_length_le)
  then have "drop (length d) (s @ t) = drop (length d) s @ t" by simp
  with p k lazy_close_append[OF k(2), of t] show ?thesis by (simp add: match_at_def)
qed

lemma match_at_take:
  assumes a: "match_at d s = Some n"
  shows "match_at d (take n s) = Some n"
proof -
  from a obtain k where k: "prefix d s" "lazy_close d (drop (length d) s) = Some k"
      "n = length d + k + length d"
    by (auto simp: match_at_def split: if_splits)
  from k(1) have p: "prefix d (take n s)" by (rule prefix_take_ge) (simp add: k(3))
  have "drop (length d) (take n s) = take (k + length d) (drop (length d) s)"
    using k(3) by (simp add: drop_take add.commute)
  with p k lazy_close_take[OF k(2)] show ?thesis by (simp add: match_at_def)
qed

lemma re_search_SomeD:
  "re_search d s = Some (i, j) \<Longrightarrow>
     i \<le> j \<and> j \<le> length s \<and> match_at d (drop i s) = Some (j - i) \<and>
     (\<forall>q<i. match_at d (drop q s) = None)"
proof (induction s arbitrary: i j)
  case Nil
  then show ?case by (auto dest: match_at_SomeD)
next
  case (Cons c cs)
  show ?case
  proof (cases "match_at d (c # cs)")
    case (Some n)
    with Cons.prems show ?thesis by (auto dest: match_at_SomeD)
  next
    case None
    with Cons.prems obtain i' j' where ij: "re_search d cs = Some (i', j')" "i = Suc i'" "j = Suc j'"
      by auto
    from Cons.IH[OF ij(1)] ij(2,3) None show ?thesis
      by (auto simp: less_Suc_eq_0_disj)
  qed
qed

lemma re_search_NoneD:
  "re_search d s = None \<Longrightarrow> match_at d (drop q s) = None"
proof (induction s arbitrary: q)
  case Nil
  then show ?case by (cases "match_at d []") auto
next
  case (Cons c cs)
  then show ?case by (cases q) (auto split: option.splits)
qed

lemma replace_first_length:
  "s = p @ old @ q \<Longrightarrow> length (replace_first old new s) + length old = length s + length new"
proof (induction s arbitrary: p)
  case Nil
  then show ?case by simp
next
  case (Cons c cs)
  show ?case
  proof (cases "prefix old (c # cs)")
    case True
    then show ?thesis by (auto dest: prefix_length_le)
  next
    case False
    with Cons.prems have "p \<noteq> []" by (cases p) auto
    then obtain p' where p': "p = c # p'" "cs = p' @ old @ q" using Cons.prems by (cases p) auto
    from Cons.IH[OF p'(2)] False show ?thesis by simp
  qed
qed

lemma replace_first_at:
  "\<forall>q<i. \<not> prefix g (drop q s) \<Longrightarrow> prefix g (drop i s) \<Longrightarrow> i \<le> length s \<Longrightarrow> g \<noteq> [] \<Longrightarrow>
     replace_first g new s = take i s @ new @ drop (i + length g) s"
proof (induction s arbitrary: i)
  case Nil
  then show ?case by simp
next
  case (Cons c cs)
  show ?case
  proof (cases i)
    case 0
    with Cons.prems show ?thesis by simp
  next
    case (Suc i')
    from Cons.prems(1) Suc have np: "\<not> prefix g (c # cs)" by (auto dest: spec[of _ 0])
    have "\<forall>q<i'. \<not> prefix g (drop q cs)"
    proof (intro allI impI)
      fix q assume "q < i'"
      then have "Suc q < i" using Suc by simp
      with Cons.prems(1) have "\<not> prefix g (drop (Suc q) (c # cs))" by blast
      then show "\<not> prefix g (drop q cs)" by simp
    qed
    moreover have "prefix g (drop i' cs)" using Cons.prems(2) Suc by simp
    moreover have "i' \<le> length cs" using Cons.prems(3) Suc by simp
    ultimately have "replace_first g new cs = take i' cs @ new @ drop (i' + length g) cs"
      using Cons.prems(4) by (rule Cons.IH)
    with np Suc show ?thesis by simp
  qed
qed


lemma group_occurs: "re_search d s = Some m \<Longrightarrow> \<exists>p q. s = p @ group s m @ q"
proof -
  obtain i j where m: "m = (i, j)" by (cases m)
  have a: "take i s @ drop i s = s" by (rule append_take_drop_id)
  have b: "take (j - i) (drop i s) @ drop (j - i) (drop i s) = drop i s"
    by (rule append_take_drop_id)
  have "s = take i s @ (take (j - i) (drop i s) @ drop (j - i) (drop i s))"
    by (simp only: a b)
  then show ?thesis unfolding m group_def fst_conv snd_conv by blast
qed

lemma group_length:
  assumes "re_search d s = Some m"
  shows "length (group s m) = snd m - fst m" and "2 * length d \<le> length (group s m)"
proof -
  obtain i j where m: "m = (i, j)" by (cases m)
  from re_search_SomeD[OF assms[unfolded m]]
  have "match_at d (drop i s) = Some (j - i)" by simp
  from match_at_SomeD[OF this] have "2 * length d \<le> j - i" "j - i \<le> length (drop i s)" by simp_all
  then show "length (group s m) = snd m - fst m" "2 * length d \<le> length (group s m)"
    by (simp_all add: group_def m)
qed

lemma slice_inner_length:
  "length (slice_inner g a b) = (if b = 0 then 0 else length g - b - a)"
  by (simp add: slice_inner_def)

lemma step_shorter:
  assumes r: "re_search d s = Some m" and d: "d \<noteq> []"
  shows "length (replace_first (group s m) (slice_inner (group s m) off off) s) < length s"
proof -
  let ?g = "group s m"
  from group_length(2)[OF r] d have g: "0 < length ?g" by (cases d) auto
  then have n: "length (slice_inner ?g off off) < length ?g"
    by (auto simp: slice_inner_length)
  from group_occurs[OF r] obtain p q where "s = p @ ?g @ q" by blast
  from replace_first_length[OF this, of "slice_inner ?g off off"] n show ?thesis by linarith
qed

lemma step_length:
  assumes r: "re_search d s = Some m" and off: "0 < off" "off \<le> length d"
  shows "length (replace_first (group s m) (slice_inner (group s m) off off) s) + 2 * off = length s"
    and "length (slice_inner (group s m) off off) + 2 * off = length (group s m)"
proof -
  let ?g = "group s m"
  from group_length(2)[OF r] off have g: "2 * off \<le> length ?g" by linarith
  then show n: "length (slice_inner ?g off off) + 2 * off = length ?g"
    using off by (simp add: slice_inner_length)
  from group_occurs[OF r] obtain p q where "s = p @ ?g @ q" by blast
  from replace_first_length[OF this, of "slice_inner ?g off off"] n
  show "length (replace_first ?g (slice_inner ?g off off) s) + 2 * off = length s" by linarith
qed

lemma strip_style_None: "re_search d s = None \<Longrightarrow> strip_style d off s = Some s"
  by (subst strip_style.simps) simp

lemma strip_style_Some:
  "re_search d s = Some m \<Longrightarrow>
   strip_style d off s =
     strip_style d off (replace_first (group s m) (slice_inner (group s m) off off) s)"
  by (subst strip_style.simps) simp

lemma strip_style_returns:
  assumes d: "d \<noteq> []"
  shows "\<exists>y. strip_style d off s = Some y \<and> re_search d y = None"
proof (induction "length s" arbitrary: s rule: less_induct)
  case less
  show ?case
  proof (cases "re_search d s")
    case None
    then show ?thesis by (simp add: strip_style_None)
  next
    case (Some m)
    let ?s' = "replace_first (group s m) (slice_inner (group s m) off off) s"
    from step_shorter[OF Some d] have "length ?s' < length s" .
    from less[OF this] obtain y where "strip_style d off ?s' = Some y" "re_search d y = None"
      by blast
    with strip_style_Some[OF Some, of off] show ?thesis by simp
  qed
qed

lemma remove_markdown_styles_returns: "\<exists>y. remove_markdown_styles s = Some y"
proof -
  from strip_style_returns[of "[STAR, STAR]" 2 s] obtain y1
    where y1: "strip_style [STAR, STAR] 2 s = Some y1" by auto
  from strip_style_returns[of "[STAR]" 1 y1] obtain y2
    where y2: "strip_style [STAR] 1 y1 = Some y2" by auto
  from y1 y2 show ?thesis by (simp add: remove_markdown_styles_def STYLES_def)
qed


section \<open>Evaluating the definitions on concrete strings\<close>

lemmas eval_defs = clean_text_for_tts_def remove_markdown_styles_def STYLES_def finish_text_def
  literal_substitutions_def expand_degrees_def strip_def splitlines_def drop_blank_lines_def py_def
  LF_def CR_def SPACE_def PERCENT_def STAR_def PLUS_def MINUS_def DEGREE_def
  group_def slice_inner_def match_at_def is_space_def is_linebreak_def demoji_sample_def
  strip_style.simps str_replace.simps

section \<open>Replacing, collapsing and stripping\<close>



lemma str_replace_Nil: "old \<noteq> [] \<Longrightarrow> str_replace old new [] = []"
  by (simp add: str_replace.simps)

lemma str_replace_match:
  "old \<noteq> [] \<Longrightarrow> prefix old s \<Longrightarrow>
   str_replace old new s = new @ str_replace old new (drop (length old) s)"
  by (subst str_replace.simps) simp

lemma str_replace_skip:
  "old \<noteq> [] \<Longrightarrow> \<not> prefix old (c # cs) \<Longrightarrow>
   str_replace old new (c # cs) = c # str_replace old new cs"
  by (subst str_replace.simps) simp

lemma str_replace_induct [consumes 1, case_names Nil Match Skip]:
  assumes old: "old \<noteq> []"
    and nil: "P []"
    and match: "\<And>s. prefix old s \<Longrightarrow> P (drop (length old) s) \<Longrightarrow> P s"
    and skip: "\<And>c cs. \<not> prefix old (c # cs) \<Longrightarrow> P cs \<Longrightarrow> P (c # cs)"
  shows "P s"
proof (induction "length s" arbitrary: s rule: less_induct)
  case less
  show ?case
  proof (cases "prefix old s")
    case True
    then have "length old \<le> length s" by (rule prefix_length_le)
    with old have "length (drop (length old) s) < length s" by (cases old) auto
    from match[OF True less[OF this]] show ?thesis .
  next
    case False
    show ?thesis
    proof (cases s)
      case Nil
      with nil show ?thesis by simp
    next
      case (Cons c cs)
      with False less[of cs] skip[of c cs] show ?thesis by simp
    qed
  qed
qed

lemma set_str_replace:
  assumes old: "old \<noteq> []"
  shows "set (str_replace old new s) \<subseteq> set s \<union> set new"
  using old
proof (induction s rule: str_replace_induct)
  case Nil
  show ?case by (simp add: str_replace_Nil old)
next
  case (Match s)
  have "set (drop (length old) s) \<subseteq> set s" by (rule set_drop_subset)
  with Match show ?case by (auto simp: str_replace_match old)
next
  case (Skip c cs)
  then show ?case by (auto simp: str_replace_skip old)
qed

lemma str_replace_char_gone:
  assumes new: "c \<notin> set new"
  shows "c \<notin> set (str_replace [c] new s)"
proof -
  have ne: "[c] \<noteq> []" by simp
  show ?thesis
    using ne
  proof (induction s rule: str_replace_induct)
    case Nil
    show ?case by (simp add: str_replace_Nil)
  next
    case (Match s)
    with new show ?case by (simp add: str_replace_match)
  next
    case (Skip x xs)
    then show ?case by (auto simp: str_replace_skip)
  qed
qed

lemma str_replace_hd:
  assumes "old \<noteq> []" "new \<noteq> []" "s \<noteq> []"
  shows "str_replace old new s \<noteq> [] \<and>
         hd (str_replace old new s) = (if prefix old s then hd new else hd s)"
proof (cases "prefix old s")
  case True
  with assms show ?thesis by (simp add: str_replace_match)
next
  case False
  with assms show ?thesis by (cases s) (simp_all add: str_replace_skip)
qed

lemma str_replace_absent:
  "old \<noteq> [] \<Longrightarrow> \<not> sublist old s \<Longrightarrow> str_replace old new s = s"
proof (induction s)
  case Nil
  then show ?case by (simp add: str_replace_Nil)
next
  case (Cons c cs)
  then have "\<not> prefix old (c # cs)" "\<not> sublist old cs"
    by (auto simp: sublist_Cons_right)
  with Cons show ?case by (simp add: str_replace_skip)
qed

lemma no_pair_Cons:
  "no_pair a b (x # xs) \<longleftrightarrow> (xs \<noteq> [] \<and> x = a \<longrightarrow> hd xs \<noteq> b) \<and> no_pair a b xs"
  by (cases xs) auto

lemma no_pair_append:
  "no_pair a b (xs @ ys) \<longleftrightarrow>
     no_pair a b xs \<and> no_pair a b ys \<and> (xs \<noteq> [] \<and> ys \<noteq> [] \<longrightarrow> \<not> (last xs = a \<and> hd ys = b))"
proof (induction xs)
  case Nil
  show ?case by simp
next
  case (Cons x xs)
  show ?case
  proof (cases xs)
    case Nil
    then show ?thesis by (auto simp: no_pair_Cons)
  next
    case (Cons x' xs')
    with Cons.IH show ?thesis by (auto simp: no_pair_Cons)
  qed
qed

lemma no_pair_sublist: "no_pair a b s \<longleftrightarrow> \<not> sublist [a, b] s"
proof (induction s)
  case Nil
  show ?case by simp
next
  case (Cons x xs)
  show ?case
  proof (cases xs)
    case Nil
    then show ?thesis by (simp add: sublist_Cons_right)
  next
    case (Cons y ys)
    with Cons.IH show ?thesis by (auto simp: sublist_Cons_right)
  qed
qed

lemma no_pair_drop: "no_pair a b s \<Longrightarrow> no_pair a b (drop n s)"
  unfolding no_pair_sublist using sublist_drop sublist_order.order.trans by blast

lemma no_pair_str_replace:
  assumes old: "old \<noteq> []" and new: "new \<noteq> []" "no_pair a b new" "last new \<noteq> a" "hd new \<noteq> b"
  shows "no_pair a b s \<Longrightarrow> no_pair a b (str_replace old new s)"
  using old
proof (induction s rule: str_replace_induct)
  case Nil
  then show ?case by (simp add: str_replace_Nil old)
next
  case (Match s)
  from Match.prems have "no_pair a b (drop (length old) s)" by (rule no_pair_drop)
  with Match.IH have "no_pair a b (str_replace old new (drop (length old) s))" by blast
  with new Match.hyps show ?case by (simp add: str_replace_match old no_pair_append)
next
  case (Skip c cs)
  from Skip.prems have cs: "no_pair a b cs" and j: "cs \<noteq> [] \<and> c = a \<longrightarrow> hd cs \<noteq> b"
    by (simp_all add: no_pair_Cons)
  from Skip.IH cs have r: "no_pair a b (str_replace old new cs)" by blast
  have "str_replace old new cs \<noteq> [] \<and> c = a \<longrightarrow> hd (str_replace old new cs) \<noteq> b"
  proof (cases "cs = []")
    case True
    then show ?thesis by (simp add: str_replace_Nil old)
  next
    case False
    from str_replace_hd[OF old new(1) False] j new(4) False show ?thesis by auto
  qed
  with r Skip.hyps show ?case by (simp add: str_replace_skip old no_pair_Cons)
qed

lemma no_pair_str_replace_self:
  assumes new: "new \<noteq> []" "no_pair a b new" "last new \<noteq> a" "hd new \<noteq> b"
  shows "no_pair a b (str_replace [a, b] new s)"
proof -
  have ne: "[a, b] \<noteq> []" by simp
  show ?thesis
    using ne
  proof (induction s rule: str_replace_induct)
    case Nil
    show ?case by (simp add: str_replace_Nil)
  next
    case (Match s)
    with new show ?case by (simp add: str_replace_match no_pair_append)
  next
    case (Skip c cs)
    have "str_replace [a, b] new cs \<noteq> [] \<and> c = a \<longrightarrow> hd (str_replace [a, b] new cs) \<noteq> b"
    proof (cases "cs = []")
      case True
      then show ?thesis by (simp add: str_replace_Nil)
    next
      case False
      from str_replace_hd[OF ne new(1) False] Skip.hyps new(4) False show ?thesis
        by (cases cs) auto
    qed
    with Skip show ?case by (simp add: str_replace_skip no_pair_Cons)
  qed
qed

lemma sub_spaces_Nil_iff: "sub_spaces s = [] \<longleftrightarrow> s = []"
  by (cases s) auto

lemma sub_spaces_hd: "s \<noteq> [] \<Longrightarrow> hd (sub_spaces s) = hd s"
  by (cases s) auto

lemma set_sub_spaces: "set (sub_spaces s) \<subseteq> set s"
proof (induction s rule: sub_spaces.induct)
  case 1
  show ?case by simp
next
  case (2 c cs)
  have "set (dropWhile (\<lambda>x. x = SPACE) cs) \<subseteq> set cs" by (auto dest: set_dropWhileD)
  with 2 show ?case by auto
qed

lemma no_pair_sub_spaces: "no_pair SPACE SPACE (sub_spaces s)"
proof (induction s rule: sub_spaces.induct)
  case 1
  show ?case by simp
next
  case (2 c cs)
  show ?case
  proof (cases "c = SPACE")
    case True
    let ?r = "dropWhile (\<lambda>x. x = SPACE) cs"
    have "?r \<noteq> [] \<longrightarrow> hd ?r \<noteq> SPACE" using hd_dropWhile[of "\<lambda>x. x = SPACE" cs] by auto
    then have "sub_spaces ?r \<noteq> [] \<longrightarrow> hd (sub_spaces ?r) \<noteq> SPACE"
      by (auto simp: sub_spaces_Nil_iff sub_spaces_hd)
    with 2 True show ?thesis by (simp add: no_pair_Cons)
  next
    case False
    with 2 show ?thesis by (simp add: no_pair_Cons)
  qed
qed

lemma sub_spaces_id: "no_pair SPACE SPACE s \<Longrightarrow> sub_spaces s = s"
proof (induction s)
  case Nil
  show ?case by simp
next
  case (Cons c cs)
  then have cs: "sub_spaces cs = cs" and j: "cs \<noteq> [] \<and> c = SPACE \<longrightarrow> hd cs \<noteq> SPACE"
    by (simp_all add: no_pair_Cons)
  show ?case
  proof (cases "c = SPACE")
    case True
    with j have "dropWhile (\<lambda>x. x = SPACE) cs = cs" by (cases cs) auto
    with True cs show ?thesis by simp
  next
    case False
    with cs show ?thesis by simp
  qed
qed

lemma set_strip: "set (strip s) \<subseteq> set s"
  by (auto simp: strip_def dest!: set_dropWhileD)
section \<open>What the normaliser's output cannot contain\<close>

lemma re_search_absent:
  assumes d: "d \<noteq> []"
  shows "hd d \<notin> set s \<Longrightarrow> re_search d s = None"
proof (induction s)
  case Nil
  with d show ?case by (simp add: match_at_def)
next
  case (Cons c cs)
  from Cons.prems d have "\<not> prefix d (c # cs)" by (cases d) auto
  then have "match_at d (c # cs) = None" by (simp add: match_at_def)
  with Cons show ?case by simp
qed

lemma literal_substitutions_chars:
  "PERCENT \<notin> set (literal_substitutions t)" "STAR \<notin> set (literal_substitutions t)"
proof -
  let ?a1 = "str_replace [PERCENT] (py '' percent'') t"
  let ?a2 = "str_replace [STAR] (py ''-'') ?a1"
  have p1: "PERCENT \<notin> set ?a1"
    by (rule str_replace_char_gone) (simp add: py_def PERCENT_def)
  have s2: "STAR \<notin> set ?a2"
    by (rule str_replace_char_gone) (simp add: py_def STAR_def)
  have "set ?a2 \<subseteq> set ?a1 \<union> set (py ''-'')" by (rule set_str_replace) simp
  with p1 have p2: "PERCENT \<notin> set ?a2" by (auto simp: py_def PERCENT_def)
  have "set (literal_substitutions t) \<subseteq> set ?a2 \<union> set (py ''  -'')"
    unfolding literal_substitutions_def by (rule set_str_replace) (simp add: py_def)
  with p2 s2 show "PERCENT \<notin> set (literal_substitutions t)" "STAR \<notin> set (literal_substitutions t)"
    by (auto simp: py_def PERCENT_def STAR_def)
qed

lemma expand_degrees_chars:
  "set (expand_degrees t) \<subseteq> set t \<union> set (DEGREE # py '' FahrenheitCelsiusKelvin'')"
proof -
  let ?f = "str_replace (DEGREE # py ''F'') (DEGREE # py '' Fahrenheit'') t"
  let ?c = "str_replace (DEGREE # py ''C'') (DEGREE # py '' Celsius'') ?f"
  have f: "set ?f \<subseteq> set t \<union> set (DEGREE # py '' Fahrenheit'')" by (rule set_str_replace) simp
  have c: "set ?c \<subseteq> set ?f \<union> set (DEGREE # py '' Celsius'')" by (rule set_str_replace) simp
  have k: "set (expand_degrees t) \<subseteq> set ?c \<union> set (DEGREE # py '' Kelvin'')"
    unfolding expand_degrees_def by (rule set_str_replace) simp
  have "set (DEGREE # py '' Fahrenheit'') \<union> set (DEGREE # py '' Celsius'')
          \<union> set (DEGREE # py '' Kelvin'') \<subseteq> set (DEGREE # py '' FahrenheitCelsiusKelvin'')"
    by (simp add: py_def)
  with f c k show ?thesis by blast
qed

lemma expand_degrees_no_double_space:
  assumes "no_pair SPACE SPACE t"
  shows "no_pair SPACE SPACE (expand_degrees t)"
proof -
  have n: "\<And>new s. new \<in> {DEGREE # py '' Fahrenheit'', DEGREE # py '' Celsius'', DEGREE # py '' Kelvin''}
      \<Longrightarrow> old \<noteq> [] \<Longrightarrow> no_pair SPACE SPACE s \<Longrightarrow> no_pair SPACE SPACE (str_replace old new s)" for old
    by (rule no_pair_str_replace) (auto simp: py_def DEGREE_def SPACE_def)
  show ?thesis unfolding expand_degrees_def
    by (intro n assms) simp_all
qed

lemma finish_text_chars:
  "PERCENT \<notin> set (finish_text t)" "STAR \<notin> set (finish_text t)" "CR \<notin> set (finish_text t)"
  "no_pair SPACE SPACE (finish_text t)"
proof -
  let ?l = "literal_substitutions t"
  let ?r = "str_replace [CR] [] ?l"
  let ?s = "sub_spaces (strip ?r)"
  have cr: "CR \<notin> set ?r" by (rule str_replace_char_gone) simp
  have "set ?r \<subseteq> set ?l \<union> set []" by (rule set_str_replace) simp
  with literal_substitutions_chars[of t] have r: "PERCENT \<notin> set ?r" "STAR \<notin> set ?r" by auto
  have "set ?s \<subseteq> set ?r" using set_sub_spaces[of "strip ?r"] set_strip[of ?r] by blast
  with r cr have s: "PERCENT \<notin> set ?s" "STAR \<notin> set ?s" "CR \<notin> set ?s" by auto
  have e: "set (finish_text t) \<subseteq> set ?s \<union> set (DEGREE # py '' FahrenheitCelsiusKelvin'')"
    unfolding finish_text_def by (rule expand_degrees_chars)
  have d: "PERCENT \<notin> set (DEGREE # py '' FahrenheitCelsiusKelvin'')"
    "STAR \<notin> set (DEGREE # py '' FahrenheitCelsiusKelvin'')"
    "CR \<notin> set (DEGREE # py '' FahrenheitCelsiusKelvin'')"
    by (simp_all add: py_def DEGREE_def PERCENT_def STAR_def CR_def)
  from e s d show "PERCENT \<notin> set (finish_text t)" "STAR \<notin> set (finish_text t)"
    "CR \<notin> set (finish_text t)" by blast+
  show "no_pair SPACE SPACE (finish_text t)"
    unfolding finish_text_def by (rule expand_degrees_no_double_space) (rule no_pair_sub_spaces)
qed

lemma plus_step_prefix:
  "prefix [SPACE, PLUS] (str_replace (py ''  +'') (py ''  -'') s) \<Longrightarrow> prefix [SPACE, PLUS] s"
proof -
  let ?old = "py ''  +''" and ?new = "py ''  -''"
  have old: "?old \<noteq> []" and new: "?new \<noteq> []" by (simp_all add: py_def)
  assume a: "prefix [SPACE, PLUS] (str_replace ?old ?new s)"
  show ?thesis
  proof (cases "prefix ?old s")
    case True
    with a show ?thesis by (simp add: str_replace_match old) (simp add: py_def SPACE_def PLUS_def)
  next
    case np: False
    show ?thesis
    proof (cases s)
      case Nil
      with a show ?thesis by (simp add: str_replace_Nil old)
    next
      case (Cons x xs)
      with a np have x: "x = SPACE" and p: "prefix [PLUS] (str_replace ?old ?new xs)"
        by (simp_all add: str_replace_skip old)
      from p have ne: "xs \<noteq> []" by (auto simp: str_replace_Nil old)
      from p have "hd (str_replace ?old ?new xs) = PLUS" by (auto simp: prefix_def)
      with str_replace_hd[OF old new ne] have "hd xs = PLUS"
        by (auto simp: py_def PLUS_def SPACE_def split: if_splits)
      with ne x Cons show ?thesis by (cases xs) auto
    qed
  qed
qed

lemma plus_step_complete:
  "\<not> sublist (py ''  +'') (str_replace (py ''  +'') (py ''  -'') s)"
proof -
  let ?old = "py ''  +''" and ?new = "py ''  -''"
  have old: "?old \<noteq> []" by (simp add: py_def)
  have old3: "?old = SPACE # [SPACE, PLUS]" by (simp add: py_def SPACE_def PLUS_def)
  show ?thesis
    using old
  proof (induction s rule: str_replace_induct)
    case Nil
    show ?case by (simp add: str_replace_Nil old)
  next
    case (Match s)
    let ?r = "str_replace ?old ?new (drop (length ?old) s)"
    have "\<not> prefix [SPACE, SPACE, PLUS] (32 # 32 # 45 # ?r)"
      "\<not> prefix [SPACE, SPACE, PLUS] (32 # 45 # ?r)" "\<not> prefix [SPACE, SPACE, PLUS] (45 # ?r)"
      by (simp_all add: SPACE_def PLUS_def)
    with Match show ?case
      by (simp add: str_replace_match old) (simp add: py_def sublist_Cons_right SPACE_def PLUS_def)
  next
    case (Skip c cs)
    have "\<not> prefix ?old (c # str_replace ?old ?new cs)"
    proof
      assume "prefix ?old (c # str_replace ?old ?new cs)"
      then have c: "c = SPACE" and "prefix [SPACE, PLUS] (str_replace ?old ?new cs)"
        unfolding old3 by simp_all
      then have "prefix [SPACE, PLUS] cs" by (auto dest: plus_step_prefix)
      with c have "prefix ?old (c # cs)" unfolding old3 by simp
      with Skip.hyps show False by simp
    qed
    with Skip show ?case by (simp add: str_replace_skip old sublist_Cons_right)
  qed
qed

section \<open>The request handler\<close>

lemmas handler_defs = tts_def respond_flac_def respond_wav_def tts_to_file_def file_encoder_def
  read_file_def os_remove_def named_temporary_file_def text_required_def speaker_required_def

lemma tts_to_file_not_http:
  "fst (tts_to_file env a b c p w) \<noteq> Inl (HTTPException code d)"
  by (simp add: tts_to_file_def Let_def split: sum.splits)

lemma respond_wav_not_http:
  "fst (respond_wav p w) \<noteq> Inl (HTTPException code d)"
  by (simp add: respond_wav_def read_file_def os_remove_def split: option.splits)

lemma file_encoder_not_http:
  "fst (file_encoder env i out w) \<noteq> Inl (HTTPException code d)"
  by (simp add: file_encoder_def Let_def split: option.splits sum.splits)

lemma respond_flac_not_http:
  "fst (respond_flac env p w) \<noteq> Inl (HTTPException code d)"
proof -
  obtain fp w3 where n: "named_temporary_file ''.flac'' w = (fp, w3)" by (cases "named_temporary_file ''.flac'' w")
  obtain r w4 where e: "file_encoder env p fp w3 = (r, w4)" by (cases "file_encoder env p fp w3")
  from file_encoder_not_http[of env p fp w3 code d] e have r: "r \<noteq> Inl (HTTPException code d)" by simp
  show ?thesis
    using r by (cases r) (simp_all add: respond_flac_def n e read_file_def os_remove_def split: option.splits)
qed

lemma tts_invalid:
  "text_field req = None \<or> text_field req = Some [] \<or> speaker_id req = None \<or> speaker_id req = Some 0
   \<Longrightarrow> \<exists>detail. tts env req w = Some (Inl (HTTPException 400 detail), w)"
  by (auto simp: tts_def text_required_def speaker_required_def split: option.splits)

lemma tts_valid_not_http:
  fixes env :: "('sp, 'e) env"
  assumes "text_field req = Some t" "t \<noteq> []" "speaker_id req = Some n" "n \<noteq> 0"
  shows "tts env req w \<noteq> Some (Inl (HTTPException code d), w')"
proof -
  obtain wp w1 where n: "named_temporary_file ''.wav'' w = (wp, w1)" by (cases "named_temporary_file ''.wav'' w")
  show ?thesis
  proof (cases "clean_text_for_tts (demoji_replace env) (os_linesep env) t")
    case None
    with assms n show ?thesis by (simp add: tts_def)
  next
    case (Some cleaned)
    obtain r w2 where s: "tts_to_file env cleaned (py ''p'' @ str_int n) (speed req) wp w1 = (r, w2)"
      by (cases "tts_to_file env cleaned (py ''p'' @ str_int n) (speed req) wp w1")
    from tts_to_file_not_http[of env cleaned "py ''p'' @ str_int n" "speed req" wp w1 code d] s
    have r: "r \<noteq> Inl (HTTPException code d)" by simp
    show ?thesis
    proof (cases r)
      case (Inl e)
      with r assms n Some s show ?thesis by (simp add: tts_def)
    next
      case (Inr u)
      have "respond_flac env wp w2 \<noteq> (Inl (HTTPException code d), w')"
        using respond_flac_not_http[of env wp w2 code d] by (metis fst_conv)
      moreover have "respond_wav wp w2 \<noteq> (Inl (HTTPException code d :: 'e exn), w')"
        using respond_wav_not_http[of wp w2 code d] by (metis fst_conv)
      ultimately show ?thesis using Inr assms n Some s by (simp add: tts_def)
    qed
  qed
qed

lemma sample_clean: "clean_text_for_tts demoji_sample [LF] (py ''**Hi**'') = Some (py ''Hi'')"
  by (simp add: eval_defs)

lemma str_int_1: "str_int 1 = py ''1''"
  by (simp add: str_int_def py_def)

lemma tts_success_removes_files:
  assumes "tts env req w = Some (Inr resp, w')"
  shows "files w' (next_tmp w, ''.wav'') = None \<and>
         (compress req = Some True \<longrightarrow> files w' (Suc (next_tmp w), ''.flac'') = None)"
  using assms
  by (auto simp: handler_defs Let_def split: option.splits if_splits sum.splits)


section \<open>The normaliser returns\<close>

text \<open>
  Claim C9: \<open>clean_text_for_tts\<close> is total. For every emoji stripper, every line separator
  and every input string (empty, with unbalanced delimiters, with a lone degree sign, with
  any code points) it returns a string: the model has no error branch, and its only loop
  returns.
\<close>

theorem clean_text_for_tts_total: "\<exists>y. clean_text_for_tts demoji linesep txt = Some y"
  using remove_markdown_styles_returns by (simp add: clean_text_for_tts_def)

theorem clean_text_for_tts_total_witness:
  "\<exists>y. clean_text_for_tts demoji_sample [LF] (py ''*a'' @ [DEGREE]) = Some y"
  using clean_text_for_tts_total[of demoji_sample "[LF]" "py ''*a'' @ [DEGREE]"] .

text \<open>
  Claim C10: \<open>remove_markdown_styles\<close> returns for every input string, and for each style
  and each message in which the style's pattern matches, the matched text is at least
  twice the offset long, its inner slice is shorter by exactly twice the offset, and so is
  the message after the replacement: every iteration strictly shortens the message.
\<close>

theorem remove_markdown_styles_terminates:
  "(\<exists>y. remove_markdown_styles txt = Some y) \<and>
   (\<forall>st \<in> set STYLES. \<forall>message m. re_search (regex st) message = Some m \<longrightarrow>
      2 * offset st \<le> length (group message m) \<and>
      length (slice_inner (group message m) (offset st) (offset st)) + 2 * offset st
        = length (group message m) \<and>
      length (replace_first (group message m)
                (slice_inner (group message m) (offset st) (offset st)) message) + 2 * offset st
        = length message \<and>
      length (replace_first (group message m)
                (slice_inner (group message m) (offset st) (offset st)) message) < length message)"
proof (intro conjI ballI allI impI)
  show "\<exists>y. remove_markdown_styles txt = Some y" by (rule remove_markdown_styles_returns)
next
  fix st message m
  assume st: "st \<in> set STYLES" and r: "re_search (regex st) message = Some m"
  from st have off: "0 < offset st" "offset st \<le> length (regex st)" "offset st = length (regex st)"
    by (auto simp: STYLES_def)
  from group_length(2)[OF r] off show "2 * offset st \<le> length (group message m)" by simp
  from step_length(2)[OF r off(1,2)]
  show "length (slice_inner (group message m) (offset st) (offset st)) + 2 * offset st
        = length (group message m)" .
  from step_length(1)[OF r off(1,2)]
  show len: "length (replace_first (group message m)
                (slice_inner (group message m) (offset st) (offset st)) message) + 2 * offset st
        = length message" .
  from len off(1)
  show "length (replace_first (group message m)
                (slice_inner (group message m) (offset st) (offset st)) message) < length message"
    by linarith
qed

theorem remove_markdown_styles_terminates_witness:
  "(\<exists>y. remove_markdown_styles (py ''**a**'') = Some y) \<and>
   re_search [STAR, STAR] (py ''x**a**'') = Some (1, 6) \<and>
   group (py ''x**a**'') (1, 6) = py ''**a**'' \<and>
   slice_inner (py ''**a**'') 2 2 = py ''a'' \<and>
   replace_first (py ''**a**'') (py ''a'') (py ''x**a**'') = py ''xa'' \<and>
   length (py ''xa'') + 2 * 2 = length (py ''x**a**'')"
proof -
  let ?st = "\<lparr>style_name = ''BOLD'', regex = [STAR, STAR], offset = 2\<rparr>"
  have st: "?st \<in> set STYLES" by (simp add: STYLES_def)
  have r: "re_search (regex ?st) (py ''x**a**'') = Some (1, 6)" by (simp add: eval_defs)
  from remove_markdown_styles_terminates[of "py ''**a**''"]
  have ex: "\<exists>y. remove_markdown_styles (py ''**a**'') = Some y"
    and all: "\<forall>st \<in> set STYLES. \<forall>message m. re_search (regex st) message = Some m \<longrightarrow>
      2 * offset st \<le> length (group message m) \<and>
      length (slice_inner (group message m) (offset st) (offset st)) + 2 * offset st
        = length (group message m) \<and>
      length (replace_first (group message m)
                (slice_inner (group message m) (offset st) (offset st)) message) + 2 * offset st
        = length message \<and>
      length (replace_first (group message m)
                (slice_inner (group message m) (offset st) (offset st)) message) < length message"
    by blast+
  from all st r have
    "length (replace_first (group (py ''x**a**'') (1, 6))
        (slice_inner (group (py ''x**a**'') (1, 6)) (offset ?st) (offset ?st)) (py ''x**a**''))
      + 2 * offset ?st = length (py ''x**a**'')"
    by blast
  moreover have "group (py ''x**a**'') (1, 6) = py ''**a**''" by (simp add: eval_defs)
  moreover have "slice_inner (py ''**a**'') 2 2 = py ''a''" by (simp add: eval_defs)
  moreover have "replace_first (py ''**a**'') (py ''a'') (py ''x**a**'') = py ''xa''"
    by (simp add: eval_defs)
  ultimately show ?thesis using ex r by simp
qed
section \<open>The output of the normaliser\<close>

text \<open>
  Claim C2: for every emoji stripper, line separator and input string,
  \<open>clean_text_for_tts\<close> returns a string that contains no percent sign, no asterisk, no
  carriage return and no two consecutive spaces; so neither the bold nor the italic pattern
  matches anywhere in it.
\<close>

theorem clean_text_for_tts_output_clean:
  "\<exists>out. clean_text_for_tts demoji linesep txt = Some out \<and>
     PERCENT \<notin> set out \<and> STAR \<notin> set out \<and> CR \<notin> set out \<and>
     \<not> sublist [SPACE, SPACE] out \<and>
     re_search [STAR, STAR] out = None \<and> re_search [STAR] out = None"
proof -
  from remove_markdown_styles_returns obtain z
    where z: "remove_markdown_styles (demoji (drop_blank_lines linesep txt)) = Some z" by blast
  let ?out = "finish_text z"
  have c: "clean_text_for_tts demoji linesep txt = Some ?out"
    by (simp add: clean_text_for_tts_def z)
  have star: "STAR \<notin> set ?out" by (rule finish_text_chars)
  have b: "re_search [STAR, STAR] ?out = None" by (rule re_search_absent) (simp_all add: star)
  have i: "re_search [STAR] ?out = None" by (rule re_search_absent) (simp_all add: star)
  have n: "\<not> sublist [SPACE, SPACE] ?out"
    using finish_text_chars(4)[of z] by (simp add: no_pair_sublist)
  from c star b i n finish_text_chars(1,3)[of z] show ?thesis by blast
qed

theorem clean_text_for_tts_output_clean_witness:
  "clean_text_for_tts demoji_sample [LF] (py ''50%  **off** *'' @ [CR]) = Some (py ''50 percent off -'') \<and>
   PERCENT \<notin> set (py ''50 percent off -'') \<and> STAR \<notin> set (py ''50 percent off -'') \<and>
   CR \<notin> set (py ''50 percent off -'') \<and> \<not> sublist [SPACE, SPACE] (py ''50 percent off -'') \<and>
   re_search [STAR, STAR] (py ''50 percent off -'') = None \<and>
   re_search [STAR] (py ''50 percent off -'') = None"
proof -
  have e: "clean_text_for_tts demoji_sample [LF] (py ''50%  **off** *'' @ [CR])
             = Some (py ''50 percent off -'')"
    by (simp add: eval_defs)
  from clean_text_for_tts_output_clean[of demoji_sample "[LF]" "py ''50%  **off** *'' @ [CR]"] e
  show ?thesis by simp
qed

text \<open>
  Claim C7: the examples of the specification. Provided the emoji stripper leaves these
  emoji-free inputs as they are, \<open>**a** and *b*\<close> becomes \<open>a and b\<close>, \<open>50% off\<close> becomes
  \<open>50 percent off\<close>, \<open>it's 70\<degree>F today\<close> becomes \<open>it's 70\<degree> Fahrenheit today\<close>, and the
  empty string stays empty, whatever the line separator.
\<close>

theorem clean_text_for_tts_examples:
  assumes "demoji (py ''**a** and *b*'') = py ''**a** and *b*''"
    and "demoji (py ''50% off'') = py ''50% off''"
    and "demoji (py ''it's 70'' @ [DEGREE] @ py ''F today'') = py ''it's 70'' @ [DEGREE] @ py ''F today''"
    and "demoji [] = []"
  shows "clean_text_for_tts demoji linesep (py ''**a** and *b*'') = Some (py ''a and b'') \<and>
         clean_text_for_tts demoji linesep (py ''50% off'') = Some (py ''50 percent off'') \<and>
         clean_text_for_tts demoji linesep (py ''it's 70'' @ [DEGREE] @ py ''F today'')
           = Some (py ''it's 70'' @ [DEGREE] @ py '' Fahrenheit today'') \<and>
         clean_text_for_tts demoji linesep [] = Some []"
  using assms by (simp add: eval_defs)

theorem clean_text_for_tts_examples_witness:
  "clean_text_for_tts demoji_sample [LF] (py ''**a** and *b*'') = Some (py ''a and b'') \<and>
   clean_text_for_tts demoji_sample [LF] (py ''50% off'') = Some (py ''50 percent off'') \<and>
   clean_text_for_tts demoji_sample [LF] (py ''it's 70'' @ [DEGREE] @ py ''F today'')
     = Some (py ''it's 70'' @ [DEGREE] @ py '' Fahrenheit today'') \<and>
   clean_text_for_tts demoji_sample [LF] [] = Some []"
proof -
  have "demoji_sample (py ''**a** and *b*'') = py ''**a** and *b*''"
    "demoji_sample (py ''50% off'') = py ''50% off''"
    "demoji_sample (py ''it's 70'' @ [DEGREE] @ py ''F today'') = py ''it's 70'' @ [DEGREE] @ py ''F today''"
    "demoji_sample [] = []"
    by (simp_all add: demoji_sample_def py_def DEGREE_def)
  then show ?thesis by (rule clean_text_for_tts_examples)
qed

text \<open>
  Claim C8: the replacement of \<open>"  +"\<close> is a literal one. Two spaces and a plus become two
  spaces and a minus before the spaces are collapsed, so \<open>a  +b\<close> ends as \<open>a -b\<close>; a plus
  after one space stays, and so does a run of spaces without a plus, which a quantifier
  would have matched. After the step no occurrence of the three characters is left, and a
  string without an occurrence is not changed by it.
\<close>

theorem plus_substitution_is_literal:
  assumes "demoji (py ''a  +b'') = py ''a  +b''"
    and "demoji (py ''a +b'') = py ''a +b''"
    and "demoji (py ''a   b'') = py ''a   b''"
  shows "clean_text_for_tts demoji linesep (py ''a  +b'') = Some (py ''a -b'') \<and>
         clean_text_for_tts demoji linesep (py ''a +b'') = Some (py ''a +b'') \<and>
         clean_text_for_tts demoji linesep (py ''a   b'') = Some (py ''a b'') \<and>
         literal_substitutions (py ''a  +b'') = py ''a  -b'' \<and>
         \<not> sublist (py ''  +'') (literal_substitutions t) \<and>
         (\<not> sublist (py ''  +'') u \<longrightarrow> str_replace (py ''  +'') (py ''  -'') u = u)"
proof -
  have "\<not> sublist (py ''  +'') (literal_substitutions t)"
    unfolding literal_substitutions_def by (rule plus_step_complete)
  moreover have "\<not> sublist (py ''  +'') u \<longrightarrow> str_replace (py ''  +'') (py ''  -'') u = u"
    by (auto intro: str_replace_absent simp: py_def)
  moreover have "literal_substitutions (py ''a  +b'') = py ''a  -b''"
    by (simp add: eval_defs str_replace.simps)
  moreover have "clean_text_for_tts demoji linesep (py ''a  +b'') = Some (py ''a -b'')"
    "clean_text_for_tts demoji linesep (py ''a +b'') = Some (py ''a +b'')"
    "clean_text_for_tts demoji linesep (py ''a   b'') = Some (py ''a b'')"
    using assms by (simp_all add: eval_defs str_replace.simps)
  ultimately show ?thesis by blast
qed

theorem plus_substitution_is_literal_witness:
  "clean_text_for_tts demoji_sample [LF] (py ''a  +b'') = Some (py ''a -b'') \<and>
   clean_text_for_tts demoji_sample [LF] (py ''a +b'') = Some (py ''a +b'') \<and>
   clean_text_for_tts demoji_sample [LF] (py ''a   b'') = Some (py ''a b'') \<and>
   literal_substitutions (py ''a  +b'') = py ''a  -b'' \<and>
   \<not> sublist (py ''  +'') (literal_substitutions (py ''x  +  +y'')) \<and>
   \<not> sublist (py ''  +'') (py ''a +b'') \<and>
   str_replace (py ''  +'') (py ''  -'') (py ''a +b'') = py ''a +b''"
proof -
  have d: "demoji_sample (py ''a  +b'') = py ''a  +b''" "demoji_sample (py ''a +b'') = py ''a +b''"
    "demoji_sample (py ''a   b'') = py ''a   b''"
    by (simp_all add: demoji_sample_def py_def)
  have n: "\<not> sublist (py ''  +'') (py ''a +b'')"
    by (simp add: py_def sublist_Cons_right)
  from plus_substitution_is_literal[OF d, of "[LF]" "py ''x  +  +y''" "py ''a +b''"] n
  show ?thesis by simp
qed

section \<open>The handler of POST /tts\<close>

text \<open>
  Claim C3: the handler raises the HTTP exception with status 400 exactly on the invalid
  requests. It raises the one for the text if and only if \<open>text\<close> is missing or empty, the
  one for the speaker if and only if the text is there and \<open>speaker_id\<close> is missing or zero,
  in both cases before anything is touched; it raises an HTTP exception of any kind if and
  only if one of the two holds; and a \<open>speaker_id\<close> of 0 gives the very result of a missing
  one.
\<close>

theorem tts_validation:
  fixes env :: "('sp, 'e) env"
  shows
  "(tts env req w = Some (Inl text_required, w))
     = (text_field req = None \<or> text_field req = Some []) \<and>
   (tts env req w = Some (Inl speaker_required, w))
     = (\<not> (text_field req = None \<or> text_field req = Some []) \<and>
        (speaker_id req = None \<or> speaker_id req = Some 0)) \<and>
   (\<exists>code detail w'. tts env req w = Some (Inl (HTTPException code detail), w'))
     = (text_field req = None \<or> text_field req = Some [] \<or>
        speaker_id req = None \<or> speaker_id req = Some 0) \<and>
   tts env (req\<lparr>speaker_id := Some 0\<rparr>) w = tts env (req\<lparr>speaker_id := None\<rparr>) w"
proof -
  let ?tb = "text_field req = None \<or> text_field req = Some []"
  let ?sb = "speaker_id req = None \<or> speaker_id req = Some 0"
  have t: "tts env req w = Some (Inl text_required, w)" if ?tb
    using that by (auto simp: tts_def)
  have s: "tts env req w = Some (Inl speaker_required, w)" if "\<not> ?tb" ?sb
    using that by (auto simp: tts_def split: option.splits)
  have ne: "(text_required :: 'e exn) \<noteq> speaker_required"
    by (simp add: text_required_def speaker_required_def)
  have v: "tts env req w \<noteq> Some (Inl (HTTPException code d), w')" if "\<not> ?tb" "\<not> ?sb" for code d w'
  proof -
    from that obtain tx n where "text_field req = Some tx" "tx \<noteq> []" "speaker_id req = Some n" "n \<noteq> 0"
      by (cases "text_field req"; cases "speaker_id req") auto
    then show ?thesis by (rule tts_valid_not_http)
  qed
  have c1: "(tts env req w = Some (Inl text_required, w)) = ?tb"
  proof (cases ?tb)
    case True
    with t show ?thesis by blast
  next
    case nt: False
    show ?thesis
    proof (cases ?sb)
      case True
      from s[OF nt True] ne nt show ?thesis by auto
    next
      case False
      from v[OF nt False, of 400 _ w] nt show ?thesis by (auto simp: text_required_def)
    qed
  qed
  have c2: "(tts env req w = Some (Inl speaker_required, w)) = (\<not> ?tb \<and> ?sb)"
  proof (cases ?tb)
    case True
    from t[OF True] ne True show ?thesis by auto
  next
    case nt: False
    show ?thesis
    proof (cases ?sb)
      case True
      from s[OF nt True] nt True show ?thesis by blast
    next
      case False
      from v[OF nt False, of 400 _ w] nt False show ?thesis by (auto simp: speaker_required_def)
    qed
  qed
  have c3: "(\<exists>code detail w'. tts env req w = Some (Inl (HTTPException code detail), w'))
              = (text_field req = None \<or> text_field req = Some [] \<or>
                 speaker_id req = None \<or> speaker_id req = Some 0)"
  proof (cases "?tb \<or> ?sb")
    case True
    then have "tts env req w = Some (Inl text_required, w) \<or> tts env req w = Some (Inl speaker_required, w)"
      using t s by blast
    then have "\<exists>code detail w'. tts env req w = Some (Inl (HTTPException code detail), w')"
      unfolding text_required_def speaker_required_def by blast
    with True show ?thesis by blast
  next
    case False
    then have "\<not> ?tb" "\<not> ?sb" by blast+
    from v[OF this] False show ?thesis by blast
  qed
  have c4: "tts env (req\<lparr>speaker_id := Some 0\<rparr>) w = tts env (req\<lparr>speaker_id := None\<rparr>) w"
    by (simp add: tts_def split: option.splits)
  from c1 c2 c3 c4 show ?thesis by (intro conjI)
qed

theorem tts_validation_witness:
  "tts sample_env \<lparr>text_field = Some [], speaker_id = Some 1, speed = 1, compress = Some True\<rparr> empty_world
     = Some (Inl (HTTPException 400 ''Text to convert into speech must be provided.''), empty_world) \<and>
   tts sample_env \<lparr>text_field = Some (py ''hi''), speaker_id = Some 0, speed = 1, compress = Some True\<rparr> empty_world
     = Some (Inl (HTTPException 400 ''Speaker ID must be provided.''), empty_world) \<and>
   tts sample_env \<lparr>text_field = Some (py ''hi''), speaker_id = None, speed = 1, compress = Some True\<rparr> empty_world
     = Some (Inl (HTTPException 400 ''Speaker ID must be provided.''), empty_world)"
proof -
  let ?r0 = "\<lparr>text_field = Some (py ''hi''), speaker_id = Some 0, speed = 1::real, compress = Some True\<rparr>"
  let ?r1 = "\<lparr>text_field = Some [], speaker_id = Some 1, speed = 1::real, compress = Some True\<rparr>"
  have ne: "py ''hi'' \<noteq> []" by (simp add: py_def)
  from tts_validation[of sample_env ?r1 empty_world]
  have a: "tts sample_env ?r1 empty_world = Some (Inl text_required, empty_world)" by simp
  let ?rn = "\<lparr>text_field = Some (py ''hi''), speaker_id = None, speed = 1::real, compress = Some True\<rparr>"
  from tts_validation[of sample_env ?r0 empty_world] ne
  have b: "tts sample_env ?r0 empty_world = Some (Inl speaker_required, empty_world)" by simp
  from tts_validation[of sample_env ?r0 empty_world]
  have "tts sample_env (?r0\<lparr>speaker_id := Some 0\<rparr>) empty_world
          = tts sample_env (?r0\<lparr>speaker_id := None\<rparr>) empty_world" by blast
  then have c: "tts sample_env ?r0 empty_world = tts sample_env ?rn empty_world" by simp
  from c[symmetric] b
  have d: "tts sample_env ?rn empty_world = Some (Inl speaker_required, empty_world)" by (rule trans)
  from a b d show ?thesis by (simp add: text_required_def speaker_required_def)
qed

text \<open>
  Claim C4: on a valid request (a non-empty text, a speaker id other than zero) whose text
  normalises to \<open>cleaned\<close>, the handler returns, and the first thing it asks of the
  capabilities is the synthesis of \<open>cleaned\<close> for the speaker \<open>p\<close> followed by the decimal
  speaker id, at the speed of the request, into the new temporary \<open>.wav\<close> file. If the
  model answers with audio, then without compression the response carries that audio as
  \<open>audio/wav\<close> and the synthesis is the only call made; with compression, if the encoder
  answers with its bytes, the response carries them as \<open>audio/flac\<close>, and the calls made are
  the synthesis and then the encoding of the \<open>.wav\<close> file into the new \<open>.flac\<close> file.
\<close>

theorem tts_valid_request:
  assumes "text_field req = Some t" "t \<noteq> []" "speaker_id req = Some n" "n \<noteq> 0"
    and "clean_text_for_tts (demoji_replace env) (os_linesep env) t = Some cleaned"
  shows "(\<exists>r w'. tts env req w = Some (r, w') \<and>
            prefix (calls w @ [Synthesize cleaned (py ''p'' @ str_int n) (speed req) (next_tmp w, ''.wav'')])
              (calls w')) \<and>
         (\<forall>audio. synthesize env cleaned (py ''p'' @ str_int n) (speed req) = Inr audio \<longrightarrow>
            (compress req \<noteq> Some True \<longrightarrow>
               (\<exists>w'. tts env req w = Some (Inr (Response audio ''audio/wav''), w') \<and>
                  calls w' = calls w @
                    [Synthesize cleaned (py ''p'' @ str_int n) (speed req) (next_tmp w, ''.wav'')])) \<and>
            (compress req = Some True \<longrightarrow>
               (\<forall>flac. flac_encode env audio = Inr flac \<longrightarrow>
                  (\<exists>w'. tts env req w = Some (Inr (Response flac ''audio/flac''), w') \<and>
                     calls w' = calls w @
                       [Synthesize cleaned (py ''p'' @ str_int n) (speed req) (next_tmp w, ''.wav''),
                        Encode (next_tmp w, ''.wav'') (Suc (next_tmp w), ''.flac'')]))))"
proof (intro conjI allI impI)
  show "\<exists>r w'. tts env req w = Some (r, w') \<and>
            prefix (calls w @ [Synthesize cleaned (py ''p'' @ str_int n) (speed req) (next_tmp w, ''.wav'')])
              (calls w')"
    using assms
    by (auto simp: handler_defs Let_def split: sum.splits option.splits)
next
  fix audio
  assume "synthesize env cleaned (py ''p'' @ str_int n) (speed req) = Inr audio"
    and "compress req \<noteq> Some True"
  with assms show "\<exists>w'. tts env req w = Some (Inr (Response audio ''audio/wav''), w') \<and>
      calls w' = calls w @ [Synthesize cleaned (py ''p'' @ str_int n) (speed req) (next_tmp w, ''.wav'')]"
    by (simp add: handler_defs Let_def)
next
  fix audio flac
  assume "synthesize env cleaned (py ''p'' @ str_int n) (speed req) = Inr audio"
    and "compress req = Some True" and "flac_encode env audio = Inr flac"
  with assms show "\<exists>w'. tts env req w = Some (Inr (Response flac ''audio/flac''), w') \<and>
      calls w' = calls w @
        [Synthesize cleaned (py ''p'' @ str_int n) (speed req) (next_tmp w, ''.wav''),
         Encode (next_tmp w, ''.wav'') (Suc (next_tmp w), ''.flac'')]"
    by (simp add: handler_defs Let_def)
qed

theorem tts_valid_request_witness:
  "tts sample_env \<lparr>text_field = Some (py ''**Hi**''), speaker_id = Some 1, speed = 1, compress = Some False\<rparr>
       empty_world
     = Some (Inr (Response ''RIFFdata'' ''audio/wav''),
         \<lparr>files = Map.empty((0, ''.wav'') := None), next_tmp = 1,
          calls = [Synthesize (py ''Hi'') (py ''p1'') 1 (0, ''.wav'')]\<rparr>) \<and>
   tts sample_env \<lparr>text_field = Some (py ''**Hi**''), speaker_id = Some 1, speed = 1, compress = Some True\<rparr>
       empty_world
     = Some (Inr (Response ''fLaCdata'' ''audio/flac''),
         \<lparr>files = Map.empty((0, ''.wav'') := None, (1, ''.flac'') := None), next_tmp = 2,
          calls = [Synthesize (py ''Hi'') (py ''p1'') 1 (0, ''.wav''),
                   Encode (0, ''.wav'') (1, ''.flac'')]\<rparr>)"
proof -
  let ?rw = "\<lparr>text_field = Some (py ''**Hi**''), speaker_id = Some 1, speed = 1::real, compress = Some False\<rparr>"
  let ?rf = "\<lparr>text_field = Some (py ''**Hi**''), speaker_id = Some 1, speed = 1::real, compress = Some True\<rparr>"
  have c: "clean_text_for_tts (demoji_replace sample_env) (os_linesep sample_env) (py ''**Hi**'') = Some (py ''Hi'')"
    by (simp add: sample_env_def sample_clean)
  have ne: "py ''**Hi**'' \<noteq> []" by (simp add: py_def)
  have s: "synthesize sample_env (py ''Hi'') (py ''p'' @ str_int 1) 1 = Inr ''RIFFdata''"
    by (simp add: sample_env_def str_int_1) (simp add: py_def)
  have f: "flac_encode sample_env ''RIFFdata'' = Inr ''fLaCdata''" by (simp add: sample_env_def)
  from tts_valid_request[of ?rw "py ''**Hi**''" 1 sample_env "py ''Hi''" empty_world] c ne s
  have w: "\<exists>w'. tts sample_env ?rw empty_world = Some (Inr (Response ''RIFFdata'' ''audio/wav''), w')"
    by auto
  from tts_valid_request[of ?rf "py ''**Hi**''" 1 sample_env "py ''Hi''" empty_world] c ne s f
  have fl: "\<exists>w'. tts sample_env ?rf empty_world = Some (Inr (Response ''fLaCdata'' ''audio/flac''), w')"
    by auto
  have w2: "tts sample_env ?rw empty_world = Some (Inr (Response ''RIFFdata'' ''audio/wav''),
         \<lparr>files = Map.empty((0, ''.wav'') := None), next_tmp = 1,
          calls = [Synthesize (py ''Hi'') (py ''p1'') 1 (0, ''.wav'')]\<rparr>)"
    using c s by (simp add: handler_defs Let_def empty_world_def ne str_int_1) (simp add: py_def)
  have f2: "tts sample_env ?rf empty_world = Some (Inr (Response ''fLaCdata'' ''audio/flac''),
         \<lparr>files = Map.empty((0, ''.wav'') := None, (1, ''.flac'') := None), next_tmp = 2,
          calls = [Synthesize (py ''Hi'') (py ''p1'') 1 (0, ''.wav''),
                   Encode (0, ''.wav'') (1, ''.flac'')]\<rparr>)"
    using c s f by (simp add: handler_defs Let_def empty_world_def ne str_int_1) (simp add: py_def)
  from w fl w2 f2 show ?thesis by simp
qed

text \<open>
  Claim C5 does not hold of the code. The handler has no \<open>try\<close> and no \<open>finally\<close>: the two
  \<open>os.remove\<close> calls are reached on the successful paths only. On a valid request, when
  the speech model raises, the exception leaves the handler with the temporary \<open>.wav\<close> file
  still there; when the model answers and the encoder raises, with the \<open>.wav\<close> file, now
  holding the audio, and the \<open>.flac\<close> file both still there.
\<close>

theorem tts_leaves_temporary_files:
  assumes "text_field req = Some t" "t \<noteq> []" "speaker_id req = Some n" "n \<noteq> 0"
    and "clean_text_for_tts (demoji_replace env) (os_linesep env) t = Some cleaned"
  shows "(\<forall>e. synthesize env cleaned (py ''p'' @ str_int n) (speed req) = Inl e \<longrightarrow>
            (\<exists>w'. tts env req w = Some (Inl (CapabilityError e), w') \<and>
                  files w' (next_tmp w, ''.wav'') = Some [])) \<and>
         (\<forall>audio e. synthesize env cleaned (py ''p'' @ str_int n) (speed req) = Inr audio \<longrightarrow>
            compress req = Some True \<longrightarrow> flac_encode env audio = Inl e \<longrightarrow>
            (\<exists>w'. tts env req w = Some (Inl (CapabilityError e), w') \<and>
                  files w' (next_tmp w, ''.wav'') = Some audio \<and>
                  files w' (Suc (next_tmp w), ''.flac'') = Some []))"
  using assms by (simp add: handler_defs Let_def)

theorem tts_leaves_temporary_files_witness:
  "tts sample_env
       \<lparr>text_field = Some (py ''**Hi**''), speaker_id = Some 9999, speed = 1, compress = Some True\<rparr>
       empty_world
     = Some (Inl (CapabilityError ''unknown speaker''),
         \<lparr>files = [(0, ''.wav'') \<mapsto> []], next_tmp = 1,
          calls = [Synthesize (py ''Hi'') (py ''p9999'') 1 (0, ''.wav'')]\<rparr>) \<and>
   tts sample_env
       \<lparr>text_field = Some (py ''**Hi**''), speaker_id = Some 2, speed = 1, compress = Some True\<rparr>
       empty_world
     = Some (Inl (CapabilityError ''empty input''),
         \<lparr>files = [(0, ''.wav'') \<mapsto> [], (1, ''.flac'') \<mapsto> []], next_tmp = 2,
          calls = [Synthesize (py ''Hi'') (py ''p2'') 1 (0, ''.wav''),
                   Encode (0, ''.wav'') (1, ''.flac'')]\<rparr>) \<and>
   files empty_world (0, ''.wav'') = None \<and> files empty_world (1, ''.flac'') = None"
proof -
  let ?r = "\<lparr>text_field = Some (py ''**Hi**''), speaker_id = Some 9999, speed = 1::real,
             compress = Some True\<rparr>"
  let ?q = "\<lparr>text_field = Some (py ''**Hi**''), speaker_id = Some 2, speed = 1::real,
             compress = Some True\<rparr>"
  have c: "clean_text_for_tts (demoji_replace sample_env) (os_linesep sample_env) (py ''**Hi**'')
             = Some (py ''Hi'')"
    by (simp add: sample_env_def sample_clean)
  have ne: "py ''**Hi**'' \<noteq> []" by (simp add: py_def)
  have n: "str_int 9999 = py ''9999''" "str_int 2 = py ''2''" by (simp_all add: str_int_def py_def)
  have s: "synthesize sample_env (py ''Hi'') (py ''p'' @ str_int 9999) 1 = Inl ''unknown speaker''"
    "synthesize sample_env (py ''Hi'') (py ''p'' @ str_int 2) 1 = Inr []"
    by (simp_all add: n sample_env_def py_def)
  have f: "flac_encode sample_env [] = Inl ''empty input''" by (simp add: sample_env_def)
  from tts_leaves_temporary_files[of ?r "py ''**Hi**''" 9999 sample_env "py ''Hi''" empty_world] c ne s
  have a: "\<exists>w'. tts sample_env ?r empty_world = Some (Inl (CapabilityError ''unknown speaker''), w') \<and>
             files w' (next_tmp empty_world, ''.wav'') = Some []" by simp
  from tts_leaves_temporary_files[of ?q "py ''**Hi**''" 2 sample_env "py ''Hi''" empty_world] c ne s f
  have b: "\<exists>w'. tts sample_env ?q empty_world = Some (Inl (CapabilityError ''empty input''), w') \<and>
             files w' (next_tmp empty_world, ''.wav'') = Some [] \<and>
             files w' (Suc (next_tmp empty_world), ''.flac'') = Some []" by simp
  have a2: "tts sample_env ?r empty_world
     = Some (Inl (CapabilityError ''unknown speaker''),
         \<lparr>files = [(0, ''.wav'') \<mapsto> []], next_tmp = 1,
          calls = [Synthesize (py ''Hi'') (py ''p9999'') 1 (0, ''.wav'')]\<rparr>)"
    using c s(1) by (simp add: handler_defs Let_def empty_world_def ne n) (simp add: py_def)
  have b2: "tts sample_env ?q empty_world
     = Some (Inl (CapabilityError ''empty input''),
         \<lparr>files = [(0, ''.wav'') \<mapsto> [], (1, ''.flac'') \<mapsto> []], next_tmp = 2,
          calls = [Synthesize (py ''Hi'') (py ''p2'') 1 (0, ''.wav''),
                   Encode (0, ''.wav'') (1, ''.flac'')]\<rparr>)"
    using c s(2) f by (simp add: handler_defs Let_def empty_world_def ne n) (simp add: py_def)
  from a b a2 b2 show ?thesis by (simp add: empty_world_def)
qed


end
